theory Spec2Isabelle
  imports
    Complex_Main
    "HOL-Library.Sublist"
    "HOL-Library.Multiset"
    "HOL-Library.Char_ord"
    "HOL-Library.List_Lexorder"
begin

section \<open>The task dashboard: data model\<close>

text \<open>
  The component \<^verbatim>\<open>todo-dashboard.tsx\<close> keeps a list of tasks in a state cell and derives
  a filtered view and summary statistics from it. Its types are embedded as they are
  declared: the two string unions as datatypes, \<^verbatim>\<open>Task\<close> and \<^verbatim>\<open>Filters\<close> as records.
  An optional field (\<^verbatim>\<open>description?\<close>, \<^verbatim>\<open>dueDate?\<close>) is an \<open>option\<close>, with \<open>None\<close> for
  \<^verbatim>\<open>undefined\<close>. A string is a list of code units; \<open>char\<close> offers the code units below 256.
\<close>

datatype Status = Backlog | InProgress | Review | Done

datatype Priority = Low | Medium | High

record Task =
  id_task :: string
  title :: string
  description :: "string option"
  status :: Status
  priority :: Priority
  dueDate :: "string option"
  tags :: "string list"
  createdAt :: string

text \<open>
  \<^verbatim>\<open>Filters\<close>: a status or priority filter is \<^verbatim>\<open>"all"\<close> or one value of the union; the
  horizon is \<^verbatim>\<open>"all" | "today" | "overdue"\<close>.
\<close>

datatype 'a OrAll = All | Only 'a

datatype Horizon = Today | Overdue

record Filters =
  query :: string
  status_filter :: "Status OrAll"
  priority_filter :: "Priority OrAll"
  horizon :: "Horizon OrAll"

text \<open>
  \<^verbatim>\<open>Partial<Task>\<close>, the type of the draft and of the changes handed to \<^verbatim>\<open>updateTask\<close>:
  every key may be missing (\<open>None\<close>). For the two optional fields a key that is present
  may still carry \<^verbatim>\<open>undefined\<close> (\<open>Some None\<close>), which an object spread copies.
\<close>

record PartialTask =
  p_id :: "string option"
  p_title :: "string option"
  p_description :: "string option option"
  p_status :: "Status option"
  p_priority :: "Priority option"
  p_dueDate :: "string option option"
  p_tags :: "string list option"
  p_createdAt :: "string option"

text \<open>The four state cells of the component.\<close>

record AppState =
  tasks :: "Task list"
  filters :: Filters
  draft :: PartialTask
  draftTags :: string

text \<open>
  What the component takes from its host and from \<^verbatim>\<open>date-fns\<close> is a parameter of the
  model: lower-casing, collation, the date functions over a type \<open>'d\<close> of instants, the
  clock reading \<^verbatim>\<open>new Date()\<close> (one reading for one evaluation of a derived value or handler),
  its ISO rendering and the identifier that \<^verbatim>\<open>crypto.randomUUID()\<close> hands out.
\<close>

record 'd Platform =
  toLowerCase :: "string \<Rightarrow> string"
  localeCompare :: "string \<Rightarrow> string \<Rightarrow> int"
  parseISO :: "string \<Rightarrow> 'd"
  isToday :: "'d \<Rightarrow> bool"
  isBefore :: "'d \<Rightarrow> 'd \<Rightarrow> bool"
  newDate :: 'd
  toISOString :: "'d \<Rightarrow> string"
  randomUUID :: string

section \<open>Host operations on strings, arrays and numbers\<close>

text \<open>\<^verbatim>\<open>s.includes(q)\<close>: \<open>q\<close> occurs in \<open>s\<close> as a contiguous run of code units.\<close>

definition includesStr :: "string \<Rightarrow> string \<Rightarrow> bool" where
  "includesStr s q = sublist q s"

text \<open>
  \<^verbatim>\<open>trim\<close> removes white space and line terminators at both ends; these are the ones among
  the code units below 256.
\<close>

definition isWhiteSpace :: "char \<Rightarrow> bool" where
  "isWhiteSpace c = (c \<in> set [CHR 0x09, CHR 0x0A, CHR 0x0B, CHR 0x0C, CHR 0x0D, CHR 0x20, CHR 0xA0])"

definition trim :: "string \<Rightarrow> string" where
  "trim s = rev (dropWhile isWhiteSpace (rev (dropWhile isWhiteSpace s)))"

text \<open>\<^verbatim>\<open>s.split(sep)\<close> for a separator of one code unit; the result is never empty.\<close>

fun split :: "char \<Rightarrow> string \<Rightarrow> string list" where
  "split sep [] = [[]]"
| "split sep (c # cs) =
     (if c = sep then [] # split sep cs
      else (case split sep cs of [] \<Rightarrow> [[c]] | r # rs \<Rightarrow> (c # r) # rs))"

text \<open>The class \<^verbatim>\<open>[a-zA-Z0-9]\<close>; \<^verbatim>\<open>replace(/[^a-zA-Z0-9]/g, "")\<close> keeps its members.\<close>

definition isAlnum :: "char \<Rightarrow> bool" where
  "isAlnum c =
     (let n = (of_char c :: nat)
      in (97 \<le> n \<and> n \<le> 122) \<or> (65 \<le> n \<and> n \<le> 90) \<or> (48 \<le> n \<and> n \<le> 57))"

definition stripNonAlnum :: "string \<Rightarrow> string" where
  "stripNonAlnum token = filter isAlnum token"

text \<open>\<^verbatim>\<open>.filter(Boolean)\<close> on strings drops the empty ones.\<close>

definition filterBoolean :: "string list \<Rightarrow> string list" where
  "filterBoolean xs = filter (\<lambda>s. s \<noteq> []) xs"

text \<open>
  \<^verbatim>\<open>xs.sort(cmp)\<close> is stable: an element goes before the first later element that it does
  not compare greater than. \<^verbatim>\<open>xs.slice(-n)\<close> keeps the last \<open>n\<close> elements, all of them when
  there are fewer.
\<close>

fun insertBy :: "('a \<Rightarrow> 'a \<Rightarrow> int) \<Rightarrow> 'a \<Rightarrow> 'a list \<Rightarrow> 'a list" where
  "insertBy cmp x [] = [x]"
| "insertBy cmp x (y # ys) = (if cmp x y \<le> 0 then x # y # ys else y # insertBy cmp x ys)"

fun sortBy :: "('a \<Rightarrow> 'a \<Rightarrow> int) \<Rightarrow> 'a list \<Rightarrow> 'a list" where
  "sortBy cmp [] = []"
| "sortBy cmp (x # xs) = insertBy cmp x (sortBy cmp xs)"

definition sliceLast :: "nat \<Rightarrow> 'a list \<Rightarrow> 'a list" where
  "sliceLast n xs = drop (length xs - n) xs"

text \<open>
  Numbers are binary64 values, here as the reals they denote. \<open>fl\<close> rounds a real to the
  nearest value with a 53-bit significand, ties to the even significand; the exponent is
  not bounded, which is exact as long as no overflow or underflow occurs. Division and
  multiplication round their exact result once. \<^verbatim>\<open>Math.round\<close> gives the closest integer,
  the upper one at a tie.
\<close>

definition round_even :: "real \<Rightarrow> int" where
  "round_even x =
     (let f = \<lfloor>x\<rfloor>; r = x - of_int f
      in if r < 1/2 then f else if 1/2 < r then f + 1 else if even f then f else f + 1)"

function fl_pos :: "real \<Rightarrow> real" where
  "fl_pos x =
     (if x \<le> 0 then 0
      else if x < 2 ^ 52 then fl_pos (2 * x) / 2
      else if 2 ^ 53 \<le> x then 2 * fl_pos (x / 2)
      else of_int (round_even x))"
  by pat_completeness auto

termination fl_pos
proof (relation "measure (\<lambda>x. if x \<le> 0 then 0 else if x < 2 ^ 52 then nat \<lceil>2 ^ 52 / x\<rceil>
                              else if x < 2 ^ 53 then 0 else nat \<lceil>x\<rceil>)")
  show "wf (measure (\<lambda>x::real. if x \<le> 0 then 0 else if x < 2 ^ 52 then nat \<lceil>2 ^ 52 / x\<rceil>
                              else if x < 2 ^ 53 then 0 else nat \<lceil>x\<rceil>))"
    by simp
next
  fix x :: real
  assume a: "\<not> x \<le> 0" "x < 2 ^ 52"
  define y where "y = 2 ^ 52 / x"
  have y1: "1 < y" using a by (simp add: y_def)
  have c1: "0 < \<lceil>y\<rceil>" using y1 by linarith
  show "(2 * x, x) \<in> measure (\<lambda>x. if x \<le> 0 then 0 else if x < 2 ^ 52 then nat \<lceil>2 ^ 52 / x\<rceil>
                              else if x < 2 ^ 53 then 0 else nat \<lceil>x\<rceil>)"
  proof (cases "2 * x < 2 ^ 52")
    case True
    have y2: "2 < y" using a True by (simp add: y_def field_simps)
    have h: "2 ^ 52 / (2 * x) = y / 2" by (simp add: y_def)
    have "y / 2 \<le> of_int \<lceil>y\<rceil> / 2" by simp
    also have "\<dots> \<le> of_int (\<lceil>y\<rceil> - 1)"
    proof -
      have "2 \<le> \<lceil>y\<rceil>" using y2 by linarith
      then have "(of_int \<lceil>y\<rceil> :: real) \<ge> 2" by (metis of_int_le_iff of_int_numeral)
      then show ?thesis by simp
    qed
    finally have "\<lceil>y / 2\<rceil> \<le> \<lceil>y\<rceil> - 1" by (subst ceiling_le_iff) simp
    then have "nat \<lceil>y / 2\<rceil> < nat \<lceil>y\<rceil>" using c1 by linarith
    then show ?thesis using a True by (simp add: h y_def)
  next
    case False
    have "x < 2 ^ 52" by fact
    then have "2 * x < 2 ^ 53" by simp
    then show ?thesis using a False c1 by (simp add: y_def)
  qed
next
  fix x :: real
  assume a: "\<not> x \<le> 0" "\<not> x < 2 ^ 52" "2 ^ 53 \<le> x"
  have c1: "0 < \<lceil>x\<rceil>" using a by linarith
  show "(x / 2, x) \<in> measure (\<lambda>x. if x \<le> 0 then 0 else if x < 2 ^ 52 then nat \<lceil>2 ^ 52 / x\<rceil>
                              else if x < 2 ^ 53 then 0 else nat \<lceil>x\<rceil>)"
  proof (cases "x / 2 < 2 ^ 53")
    case True
    then show ?thesis using a c1 by simp
  next
    case False
    have "x / 2 \<le> of_int \<lceil>x\<rceil> / 2" by simp
    also have "\<dots> \<le> of_int (\<lceil>x\<rceil> - 1)"
    proof -
      have "(2::real) \<le> 2 ^ 53" by simp
      then have "2 \<le> x" using a by linarith
      then have "2 \<le> \<lceil>x\<rceil>" by linarith
      then have "(of_int \<lceil>x\<rceil> :: real) \<ge> 2" by (metis of_int_le_iff of_int_numeral)
      then show ?thesis by simp
    qed
    finally have "\<lceil>x / 2\<rceil> \<le> \<lceil>x\<rceil> - 1" by (subst ceiling_le_iff) simp
    then have "nat \<lceil>x / 2\<rceil> < nat \<lceil>x\<rceil>" using c1 by linarith
    then show ?thesis using a False by simp
  qed
qed

declare fl_pos.simps [simp del]

definition fl :: "real \<Rightarrow> real" where
  "fl x = (if x < 0 then - fl_pos (- x) else fl_pos x)"

definition fdiv :: "real \<Rightarrow> real \<Rightarrow> real" where
  "fdiv a b = fl (a / b)"

definition fmul :: "real \<Rightarrow> real \<Rightarrow> real" where
  "fmul a b = fl (a * b)"

definition Math_round :: "real \<Rightarrow> int" where
  "Math_round x = \<lfloor>x + 1/2\<rfloor>"

section \<open>Status progression\<close>

text \<open>
  \<^verbatim>\<open>order.indexOf(status)\<close> is the position of the first occurrence, or \<open>-1\<close>. The index
  handed to \<^verbatim>\<open>order[...]\<close> is clamped by \<^verbatim>\<open>Math.min\<close> and \<^verbatim>\<open>Math.max\<close>; that it always
  lies inside the array is proved with the steps below.
\<close>

fun indexOf :: "'a list \<Rightarrow> 'a \<Rightarrow> int" where
  "indexOf [] x = -1"
| "indexOf (y # ys) x =
     (if y = x then 0 else (let i = indexOf ys x in if i < 0 then -1 else i + 1))"

definition order :: "Status list" where
  "order = [Backlog, InProgress, Review, Done]"

definition nextIndex :: "Status \<Rightarrow> int" where
  "nextIndex s = (let idx = indexOf order s in min (int (length order) - 1) (idx + 1))"

definition nextStatus :: "Status \<Rightarrow> Status" where
  "nextStatus s = order ! nat (nextIndex s)"

definition previousIndex :: "Status \<Rightarrow> int" where
  "previousIndex s = (let idx = indexOf order s in max 0 (idx - 1))"

definition previousStatus :: "Status \<Rightarrow> Status" where
  "previousStatus s = order ! nat (previousIndex s)"

section \<open>Derived values\<close>

text \<open>
  The callback of \<^verbatim>\<open>tasks.filter\<close> in \<^verbatim>\<open>filteredTasks\<close>, with its early returns as the
  branches of a conditional, and the filtered list itself.
\<close>

definition keepTask :: "'d Platform \<Rightarrow> Filters \<Rightarrow> Task \<Rightarrow> bool" where
  "keepTask env fs task =
     (if query fs \<noteq> [] \<and>
         (let q = toLowerCase env (query fs)
          in \<not> includesStr (toLowerCase env (title task)) q \<and>
             \<not> (case description task of None \<Rightarrow> False
                                          | Some d \<Rightarrow> includesStr (toLowerCase env d) q) \<and>
             \<not> list_ex (\<lambda>tag. includesStr (toLowerCase env tag) q) (tags task))
      then False
      else if status_filter fs \<noteq> All \<and> Only (status task) \<noteq> status_filter fs then False
      else if priority_filter fs \<noteq> All \<and> Only (priority task) \<noteq> priority_filter fs then False
      else (case dueDate task of
              None \<Rightarrow> True
            | Some d \<Rightarrow>
                if horizon fs \<noteq> All \<and> d \<noteq> [] then
                  (let due = parseISO env d
                   in if horizon fs = Only Today \<and> \<not> isToday env due then False
                      else if horizon fs = Only Overdue \<and> \<not> isBefore env due (newDate env)
                      then False
                      else True)
                else True))"

definition filteredTasks :: "'d Platform \<Rightarrow> Task list \<Rightarrow> Filters \<Rightarrow> Task list" where
  "filteredTasks env ts fs = filter (keepTask env fs) ts"

text \<open>
  The statistics. An optional string is falsy when it is \<^verbatim>\<open>undefined\<close> or empty, so
  \<^verbatim>\<open>!task.dueDate\<close> holds in both cases and \<^verbatim>\<open>a.dueDate || ""\<close> is \<open>orEmpty\<close>.
\<close>

record Stats =
  totals :: nat
  done_count :: nat
  overdue :: nat
  health :: int
  flow :: "Task list"
  focus :: "Task option"

definition orEmpty :: "string option \<Rightarrow> string" where
  "orEmpty v = (case v of None \<Rightarrow> [] | Some s \<Rightarrow> s)"

definition isOverdue :: "'d Platform \<Rightarrow> Task \<Rightarrow> bool" where
  "isOverdue env task =
     (case dueDate task of
        None \<Rightarrow> False
      | Some d \<Rightarrow>
          if d = [] then False
          else isBefore env (parseISO env d) (newDate env) \<and> status task \<noteq> Done)"

definition compareDue :: "'d Platform \<Rightarrow> Task \<Rightarrow> Task \<Rightarrow> int" where
  "compareDue env a b = localeCompare env (orEmpty (dueDate a)) (orEmpty (dueDate b))"

definition stats :: "'d Platform \<Rightarrow> Task list \<Rightarrow> Stats" where
  "stats env ts =
     (let n = length ts;
          dn = length (filter (\<lambda>task. status task = Done) ts);
          ov = length (filter (isOverdue env) ts);
          fw = sliceLast 3 (sortBy (compareDue env) (filter (\<lambda>task. status task = Done) ts));
          fc = (case find (\<lambda>task. status task = InProgress) ts of
                  Some t \<Rightarrow> Some t
                | None \<Rightarrow> find (\<lambda>task. status task = Backlog) ts)
      in \<lparr> totals = n, done_count = dn, overdue = ov,
           health = (if n = 0 then 0 else Math_round (fmul (fdiv (real dn) (real n)) 100)),
           flow = fw, focus = fc \<rparr>)"

section \<open>Handlers\<close>

text \<open>
  Each handler is a function on the state; \<^verbatim>\<open>setTasks((prev) => ...)\<close> replaces the task list
  by the updater's result.
\<close>

definition emptyDraft :: PartialTask where
  "emptyDraft =
     \<lparr> p_id = None, p_title = Some [], p_description = Some (Some []),
       p_status = Some Backlog, p_priority = Some Medium, p_dueDate = Some (Some []),
       p_tags = Some [], p_createdAt = None \<rparr>"

definition handleAddTask :: "'d Platform \<Rightarrow> AppState \<Rightarrow> AppState" where
  "handleAddTask env st =
     (case p_title (draft st) of
        None \<Rightarrow> st
      | Some draft_title \<Rightarrow>
          if trim draft_title = [] then st
          else
            (let tagList =
                   (if length (trim (draftTags st)) > 0
                    then filterBoolean (map trim (split CHR '','' (draftTags st)))
                    else filterBoolean (map stripNonAlnum (take 2 (split CHR '' '' draft_title))));
                 task =
                   \<lparr> id_task = randomUUID env,
                     title = trim draft_title,
                     description = (case p_description (draft st) of
                                      Some (Some d) \<Rightarrow> Some (trim d) | _ \<Rightarrow> None),
                     status = (case p_status (draft st) of Some s \<Rightarrow> s | None \<Rightarrow> Backlog),
                     priority = (case p_priority (draft st) of Some p \<Rightarrow> p | None \<Rightarrow> Medium),
                     dueDate = (case p_dueDate (draft st) of
                                  Some (Some d) \<Rightarrow> if d = [] then None else Some d | _ \<Rightarrow> None),
                     tags = tagList,
                     createdAt = toISOString env (newDate env) \<rparr>
             in st\<lparr> tasks := task # tasks st, draft := emptyDraft, draftTags := [] \<rparr>))"

definition handleDelete :: "string \<Rightarrow> AppState \<Rightarrow> AppState" where
  "handleDelete i st = st\<lparr> tasks := filter (\<lambda>task. id_task task \<noteq> i) (tasks st) \<rparr>"

text \<open>\<^verbatim>\<open>{ ...task, ...changes }\<close>: a key of \<open>changes\<close> that is present wins.\<close>

definition spread :: "Task \<Rightarrow> PartialTask \<Rightarrow> Task" where
  "spread task changes =
     \<lparr> id_task = (case p_id changes of None \<Rightarrow> id_task task | Some v \<Rightarrow> v),
       title = (case p_title changes of None \<Rightarrow> title task | Some v \<Rightarrow> v),
       description = (case p_description changes of None \<Rightarrow> description task | Some v \<Rightarrow> v),
       status = (case p_status changes of None \<Rightarrow> status task | Some v \<Rightarrow> v),
       priority = (case p_priority changes of None \<Rightarrow> priority task | Some v \<Rightarrow> v),
       dueDate = (case p_dueDate changes of None \<Rightarrow> dueDate task | Some v \<Rightarrow> v),
       tags = (case p_tags changes of None \<Rightarrow> tags task | Some v \<Rightarrow> v),
       createdAt = (case p_createdAt changes of None \<Rightarrow> createdAt task | Some v \<Rightarrow> v) \<rparr>"

definition updateTask :: "string \<Rightarrow> PartialTask \<Rightarrow> AppState \<Rightarrow> AppState" where
  "updateTask i changes st =
     st\<lparr> tasks := map (\<lambda>task. if id_task task = i then spread task changes else task) (tasks st) \<rparr>"

datatype Direction = Forward | Backward

definition toggleStatus :: "string \<Rightarrow> Direction \<Rightarrow> AppState \<Rightarrow> AppState" where
  "toggleStatus i direction st =
     st\<lparr> tasks :=
          map (\<lambda>task.
                 if id_task task \<noteq> i then task
                 else (let target = (if direction = Forward then nextStatus (status task)
                                     else previousStatus (status task))
                       in task\<lparr> status := target \<rparr>))
              (tasks st) \<rparr>"

section \<open>A concrete host and the initial state\<close>

text \<open>
  To run the model, a host is fixed: the clock stands at noon of 2024-06-15, an instant is
  a calendar date with the minutes since its midnight, \<^verbatim>\<open>parseISO\<close> reads a date string as
  that day's midnight, lower-casing is that of the ASCII letters and collation is the
  order of the code units. \<open>DEFAULT_TASKS\<close> is the array of the source, at this clock.
\<close>

definition asciiLower :: "char \<Rightarrow> char" where
  "asciiLower c =
     (case c of Char b0 b1 b2 b3 b4 b5 b6 b7 \<Rightarrow>
        (let n = (of_char c :: nat)
         in if 65 \<le> n \<and> n \<le> 90 then Char b0 b1 b2 b3 b4 True b6 b7 else c))"

definition codeUnitCompare :: "string \<Rightarrow> string \<Rightarrow> int" where
  "codeUnitCompare a b = (if a < b then -1 else if a = b then 0 else 1)"

definition noonPlatform :: "(string \<times> nat) Platform" where
  "noonPlatform =
     \<lparr> toLowerCase = map asciiLower,
       localeCompare = codeUnitCompare,
       parseISO = (\<lambda>s. (s, 0)),
       isToday = (\<lambda>d. fst d = ''2024-06-15''),
       isBefore = (\<lambda>a b. fst a < fst b \<or> (fst a = fst b \<and> snd a < snd b)),
       newDate = (''2024-06-15'', 720),
       toISOString = (\<lambda>d. fst d @ ''T12:00:00.000Z''),
       randomUUID = ''0b7e6a52-5c1d-4c3a-9a57-2f4d8e1c9f10'' \<rparr>"

definition DEFAULT_TASKS :: "Task list" where
  "DEFAULT_TASKS =
     [ \<lparr> id_task = ''1'', title = ''Kick-off strategy workshop'',
         description = Some ''Align the team on quarterly goals and investment priorities.'',
         status = Backlog, priority = High, dueDate = Some ''2024-06-15'',
         tags = [''Planning'', ''Leadership''], createdAt = ''2024-06-15T12:00:00.000Z'' \<rparr>,
       \<lparr> id_task = ''2'', title = ''Refine onboarding sequence'',
         description = Some ''Audit the product onboarding flow and suggest quick wins.'',
         status = InProgress, priority = Medium, dueDate = Some ''2024-06-17'',
         tags = [''Lifecycle'', ''Growth''], createdAt = ''2024-06-15T12:00:00.000Z'' \<rparr>,
       \<lparr> id_task = ''3'', title = ''Ship analytics dashboard v1'',
         description = Some ''Finalize QA checklist and deploy the first analytics release.'',
         status = Review, priority = High, dueDate = Some ''2024-06-19'',
         tags = [''Product'', ''Delivery''], createdAt = ''2024-06-15T12:00:00.000Z'' \<rparr>,
       \<lparr> id_task = ''4'', title = ''Publish Q1 investor update'',
         description = Some ''Summarize performance, roadmap progress, and key learnings.'',
         status = Done, priority = Low, dueDate = Some ''2024-06-12'',
         tags = [''Finance''], createdAt = ''2024-06-15T12:00:00.000Z'' \<rparr> ]"

definition noFilters :: Filters where
  "noFilters = \<lparr> query = [], status_filter = All, priority_filter = All, horizon = All \<rparr>"

definition initialState :: AppState where
  "initialState =
     \<lparr> tasks = DEFAULT_TASKS, filters = noFilters, draft = emptyDraft, draftTags = [] \<rparr>"

text \<open>Changes that supply no field, and a draft as the form leaves it after typing a title.\<close>

definition noChanges :: PartialTask where
  "noChanges =
     \<lparr> p_id = None, p_title = None, p_description = None, p_status = None,
       p_priority = None, p_dueDate = None, p_tags = None, p_createdAt = None \<rparr>"

definition draftTitled :: "string \<Rightarrow> AppState" where
  "draftTitled t = initialState \<lparr> draft := emptyDraft \<lparr> p_title := Some t \<rparr> \<rparr>"

text \<open>A done task with a given identifier and due date, for the examples of the feed.\<close>

definition doneTask :: "string \<Rightarrow> string option \<Rightarrow> Task" where
  "doneTask i due =
     \<lparr> id_task = i, title = ''Task '' @ i, description = None, status = Done,
       priority = Medium, dueDate = due, tags = [], createdAt = ''2024-06-15T12:00:00.000Z'' \<rparr>"

section \<open>Status progression: one stage at a time, clamped\<close>

text \<open>
  C4. The forward and the backward step are total on the four stages: the index read
  from \<open>order\<close> always lies inside it. Each moves exactly one stage and stays put at its
  end of the line: forward of done is done, backward of backlog is backlog. Advancing and
  then retreating from backlog gives backlog, and from in-progress gives in-progress
  again.
\<close>

theorem status_steps:
  "0 \<le> nextIndex s \<and> nextIndex s < int (length order) \<and>
   0 \<le> previousIndex s \<and> previousIndex s < int (length order) \<and>
   nextStatus Backlog = InProgress \<and> nextStatus InProgress = Review \<and>
   nextStatus Review = Done \<and> nextStatus Done = Done \<and>
   previousStatus Backlog = Backlog \<and> previousStatus InProgress = Backlog \<and>
   previousStatus Review = InProgress \<and> previousStatus Done = Review \<and>
   previousStatus (nextStatus Backlog) = Backlog \<and>
   previousStatus (nextStatus InProgress) = InProgress"
  by (cases s)
     (simp_all add: nextStatus_def previousStatus_def nextIndex_def previousIndex_def order_def)

theorem status_steps_witness:
  "nextIndex Done = 3 \<and> previousIndex Backlog = 0 \<and> nextStatus Done = Done \<and>
   previousStatus Backlog = Backlog \<and> previousStatus (nextStatus InProgress) = InProgress"
proof -
  have "nextIndex Done = 3" "previousIndex Backlog = 0"
    by (simp_all add: nextIndex_def previousIndex_def order_def)
  then show ?thesis
    using status_steps [of Done] by simp
qed

section \<open>The filtered list\<close>

lemma query_part:
  "(query fs \<noteq> [] \<and>
         (let q = toLowerCase env (query fs)
          in \<not> includesStr (toLowerCase env (title task)) q \<and>
             \<not> (case description task of None \<Rightarrow> False
                                          | Some d \<Rightarrow> includesStr (toLowerCase env d) q) \<and>
             \<not> list_ex (\<lambda>tag. includesStr (toLowerCase env tag) q) (tags task))) \<longleftrightarrow>
   \<not> (query fs = [] \<or>
      includesStr (toLowerCase env (title task)) (toLowerCase env (query fs)) \<or>
      (\<exists>d. description task = Some d \<and>
           includesStr (toLowerCase env d) (toLowerCase env (query fs))) \<or>
      (\<exists>tag \<in> set (tags task).
           includesStr (toLowerCase env tag) (toLowerCase env (query fs))))"
  by (cases "description task") (simp_all add: Let_def list_ex_iff)

lemma horizon_part:
  "(case dueDate task of
              None \<Rightarrow> True
            | Some d \<Rightarrow>
                if horizon fs \<noteq> All \<and> d \<noteq> [] then
                  (let due = parseISO env d
                   in if horizon fs = Only Today \<and> \<not> isToday env due then False
                      else if horizon fs = Only Overdue \<and> \<not> isBefore env due (newDate env)
                      then False
                      else True)
                else True) \<longleftrightarrow>
   (\<forall>d. dueDate task = Some d \<and> d \<noteq> [] \<longrightarrow>
          (horizon fs = Only Today \<longrightarrow> isToday env (parseISO env d)) \<and>
          (horizon fs = Only Overdue \<longrightarrow> isBefore env (parseISO env d) (newDate env)))"
proof (cases "dueDate task")
  case None
  then show ?thesis by simp
next
  case (Some d)
  show ?thesis
  proof (cases "horizon fs")
    case All
    then show ?thesis using Some by simp
  next
    case (Only h)
    then show ?thesis using Some by (cases h) (simp_all add: Let_def)
  qed
qed

lemma keepTask_iff:
  "keepTask env fs task \<longleftrightarrow>
     (query fs = [] \<or>
      includesStr (toLowerCase env (title task)) (toLowerCase env (query fs)) \<or>
      (\<exists>d. description task = Some d \<and>
           includesStr (toLowerCase env d) (toLowerCase env (query fs))) \<or>
      (\<exists>tag \<in> set (tags task).
           includesStr (toLowerCase env tag) (toLowerCase env (query fs)))) \<and>
     (status_filter fs = All \<or> status_filter fs = Only (status task)) \<and>
     (priority_filter fs = All \<or> priority_filter fs = Only (priority task)) \<and>
     (\<forall>d. dueDate task = Some d \<and> d \<noteq> [] \<longrightarrow>
          (horizon fs = Only Today \<longrightarrow> isToday env (parseISO env d)) \<and>
          (horizon fs = Only Overdue \<longrightarrow> isBefore env (parseISO env d) (newDate env)))"
proof -
  have chain: "(if \<not> Q then False else if S then False else if P then False else H) \<longleftrightarrow>
               Q \<and> \<not> S \<and> \<not> P \<and> H" for Q S P H
    by simp
  have s: "\<not> (status_filter fs \<noteq> All \<and> Only (status task) \<noteq> status_filter fs) \<longleftrightarrow>
           (status_filter fs = All \<or> status_filter fs = Only (status task))"
    by auto
  have p: "\<not> (priority_filter fs \<noteq> All \<and> Only (priority task) \<noteq> priority_filter fs) \<longleftrightarrow>
           (priority_filter fs = All \<or> priority_filter fs = Only (priority task))"
    by auto
  show ?thesis
    unfolding keepTask_def query_part horizon_part chain s p by (rule refl)
qed

lemma done_past_due:
  assumes "status task = Done" "dueDate task = Some d" "d \<noteq> []"
    and "isBefore env (parseISO env d) (newDate env)"
  shows "keepTask env \<lparr> query = [], status_filter = All, priority_filter = All,
                        horizon = Only Overdue \<rparr> task"
    and "\<not> isOverdue env task"
  using assms by (simp_all add: keepTask_iff isOverdue_def)

text \<open>
  C1. The filter keeps exactly the tasks that pass every active constraint. The text
  query passes when it is empty or when the lower-cased title, description or some tag
  contains the lower-cased query; status and priority pass when the filter is "all" or
  equal to the task's value; the horizon constrains only a task with a due date (a
  non-empty \<^verbatim>\<open>dueDate\<close>, the empty string being "No due date" for the component): "today"
  asks \<^verbatim>\<open>isToday\<close> of the due date, "overdue" asks that it is before the clock's reading,
  whatever the status. So a done task that is past due is kept by the "overdue" horizon
  although the overdue count leaves it out.
\<close>

theorem filteredTasks_exact:
  "filteredTasks env ts fs =
     filter (\<lambda>task.
        (query fs = [] \<or>
         includesStr (toLowerCase env (title task)) (toLowerCase env (query fs)) \<or>
         (\<exists>d. description task = Some d \<and>
              includesStr (toLowerCase env d) (toLowerCase env (query fs))) \<or>
         (\<exists>tag \<in> set (tags task).
              includesStr (toLowerCase env tag) (toLowerCase env (query fs)))) \<and>
        (status_filter fs = All \<or> status_filter fs = Only (status task)) \<and>
        (priority_filter fs = All \<or> priority_filter fs = Only (priority task)) \<and>
        (\<forall>d. dueDate task = Some d \<and> d \<noteq> [] \<longrightarrow>
             (horizon fs = Only Today \<longrightarrow> isToday env (parseISO env d)) \<and>
             (horizon fs = Only Overdue \<longrightarrow>
                isBefore env (parseISO env d) (newDate env)))) ts \<and>
   (status t = Done \<and> dueDate t = Some d' \<and> d' \<noteq> [] \<and>
    isBefore env (parseISO env d') (newDate env) \<longrightarrow>
      filteredTasks env [t] \<lparr> query = [], status_filter = All, priority_filter = All,
                                horizon = Only Overdue \<rparr> = [t] \<and>
      overdue (stats env [t]) = 0)"
proof (intro conjI impI)
  show "filteredTasks env ts fs =
     filter (\<lambda>task.
        (query fs = [] \<or>
         includesStr (toLowerCase env (title task)) (toLowerCase env (query fs)) \<or>
         (\<exists>d. description task = Some d \<and>
              includesStr (toLowerCase env d) (toLowerCase env (query fs))) \<or>
         (\<exists>tag \<in> set (tags task).
              includesStr (toLowerCase env tag) (toLowerCase env (query fs)))) \<and>
        (status_filter fs = All \<or> status_filter fs = Only (status task)) \<and>
        (priority_filter fs = All \<or> priority_filter fs = Only (priority task)) \<and>
        (\<forall>d. dueDate task = Some d \<and> d \<noteq> [] \<longrightarrow>
             (horizon fs = Only Today \<longrightarrow> isToday env (parseISO env d)) \<and>
             (horizon fs = Only Overdue \<longrightarrow>
                isBefore env (parseISO env d) (newDate env)))) ts"
    unfolding filteredTasks_def keepTask_iff by (rule refl)
next
  assume a: "status t = Done \<and> dueDate t = Some d' \<and> d' \<noteq> [] \<and>
    isBefore env (parseISO env d') (newDate env)"
  then have k: "keepTask env \<lparr> query = [], status_filter = All, priority_filter = All,
                        horizon = Only Overdue \<rparr> t" and o: "\<not> isOverdue env t"
    using done_past_due [of t d' env] by blast+
  show "filteredTasks env [t] \<lparr> query = [], status_filter = All, priority_filter = All,
                                horizon = Only Overdue \<rparr> = [t]"
    using k by (simp add: filteredTasks_def)
  show "overdue (stats env [t]) = 0"
    using o by (simp add: stats_def Let_def)
qed

theorem filteredTasks_exact_witness:
  "filteredTasks noonPlatform DEFAULT_TASKS (noFilters \<lparr> query := ''GROWTH'' \<rparr>)
     = [DEFAULT_TASKS ! 1] \<and>
   status (DEFAULT_TASKS ! 3) = Done \<and>
   dueDate (DEFAULT_TASKS ! 3) = Some ''2024-06-12'' \<and>
   isBefore noonPlatform (parseISO noonPlatform ''2024-06-12'') (newDate noonPlatform) \<and>
   filteredTasks noonPlatform [DEFAULT_TASKS ! 3]
     \<lparr> query = [], status_filter = All, priority_filter = All, horizon = Only Overdue \<rparr>
     = [DEFAULT_TASKS ! 3] \<and>
   overdue (stats noonPlatform [DEFAULT_TASKS ! 3]) = 0"
proof -
  have e: "filteredTasks noonPlatform DEFAULT_TASKS (noFilters \<lparr> query := ''GROWTH'' \<rparr>)
             = [DEFAULT_TASKS ! 1]"
    by code_simp
  have h: "status (DEFAULT_TASKS ! 3) = Done \<and>
           dueDate (DEFAULT_TASKS ! 3) = Some ''2024-06-12'' \<and> ''2024-06-12'' \<noteq> [] \<and>
           isBefore noonPlatform (parseISO noonPlatform ''2024-06-12'') (newDate noonPlatform)"
    by (simp add: DEFAULT_TASKS_def noonPlatform_def)
  show ?thesis
    using e h filteredTasks_exact [of noonPlatform DEFAULT_TASKS
        "noFilters \<lparr> query := ''GROWTH'' \<rparr>" "DEFAULT_TASKS ! 3" "''2024-06-12''"]
    by blast
qed

text \<open>
  C5. Whatever the filters, the filtered list is a subsequence of the task list: tasks are
  dropped, never reordered. With an empty query and "all" in the three other fields the
  filtered list is the task list itself.
\<close>

theorem filter_subseq_identity:
  "subseq (filteredTasks env ts fs) ts \<and>
   filteredTasks env ts
     \<lparr> query = [], status_filter = All, priority_filter = All, horizon = All \<rparr> = ts"
proof
  show "subseq (filteredTasks env ts fs) ts"
    by (simp add: filteredTasks_def)
  have "keepTask env
          \<lparr> query = [], status_filter = All, priority_filter = All, horizon = All \<rparr> t" for t
    by (simp add: keepTask_def split: option.split)
  then show "filteredTasks env ts
     \<lparr> query = [], status_filter = All, priority_filter = All, horizon = All \<rparr> = ts"
    by (simp add: filteredTasks_def)
qed

theorem filter_subseq_identity_witness:
  "filteredTasks noonPlatform DEFAULT_TASKS (noFilters \<lparr> horizon := Only Overdue \<rparr>)
     = [DEFAULT_TASKS ! 0, DEFAULT_TASKS ! 3] \<and>
   subseq [DEFAULT_TASKS ! 0, DEFAULT_TASKS ! 3] DEFAULT_TASKS \<and>
   filteredTasks noonPlatform DEFAULT_TASKS
     \<lparr> query = [], status_filter = All, priority_filter = All, horizon = All \<rparr>
     = DEFAULT_TASKS"
proof -
  have e: "filteredTasks noonPlatform DEFAULT_TASKS (noFilters \<lparr> horizon := Only Overdue \<rparr>)
             = [DEFAULT_TASKS ! 0, DEFAULT_TASKS ! 3]"
    by code_simp
  show ?thesis
    using e filter_subseq_identity [of noonPlatform DEFAULT_TASKS
        "noFilters \<lparr> horizon := Only Overdue \<rparr>"]
    by simp
qed

section \<open>The focus task\<close>

text \<open>
  C7. The focus is the first task of the list that is in progress; when no task is in
  progress it is the first task in the backlog; when there is neither it is absent.
\<close>

theorem stats_focus:
  "(\<forall>i < length ts.
      status (ts ! i) = InProgress \<and> (\<forall>j < i. status (ts ! j) \<noteq> InProgress)
        \<longrightarrow> focus (stats env ts) = Some (ts ! i)) \<and>
   ((\<forall>t \<in> set ts. status t \<noteq> InProgress) \<longrightarrow>
      (\<forall>i < length ts.
         status (ts ! i) = Backlog \<and> (\<forall>j < i. status (ts ! j) \<noteq> Backlog)
           \<longrightarrow> focus (stats env ts) = Some (ts ! i))) \<and>
   ((\<forall>t \<in> set ts. status t \<noteq> InProgress \<and> status t \<noteq> Backlog) \<longrightarrow>
      focus (stats env ts) = None)"
proof (intro conjI allI impI)
  fix i
  assume "i < length ts"
    and "status (ts ! i) = InProgress \<and> (\<forall>j < i. status (ts ! j) \<noteq> InProgress)"
  then have "find (\<lambda>task. status task = InProgress) ts = Some (ts ! i)"
    by (subst find_Some_iff) blast
  then show "focus (stats env ts) = Some (ts ! i)"
    by (simp add: stats_def Let_def)
next
  fix i
  assume n: "\<forall>t \<in> set ts. status t \<noteq> InProgress"
    and "i < length ts"
    and "status (ts ! i) = Backlog \<and> (\<forall>j < i. status (ts ! j) \<noteq> Backlog)"
  then have "find (\<lambda>task. status task = Backlog) ts = Some (ts ! i)"
    by (subst find_Some_iff) blast
  moreover have "find (\<lambda>task. status task = InProgress) ts = None"
    using n by (simp add: find_None_iff)
  ultimately show "focus (stats env ts) = Some (ts ! i)"
    by (simp add: stats_def Let_def)
next
  assume "\<forall>t \<in> set ts. status t \<noteq> InProgress \<and> status t \<noteq> Backlog"
  then have "find (\<lambda>task. status task = InProgress) ts = None"
    and "find (\<lambda>task. status task = Backlog) ts = None"
    by (simp_all add: find_None_iff)
  then show "focus (stats env ts) = None"
    by (simp add: stats_def Let_def)
qed

theorem stats_focus_witness:
  "focus (stats noonPlatform DEFAULT_TASKS) = Some (DEFAULT_TASKS ! 1) \<and>
   focus (stats noonPlatform [DEFAULT_TASKS ! 3, DEFAULT_TASKS ! 0]) = Some (DEFAULT_TASKS ! 0) \<and>
   focus (stats noonPlatform [DEFAULT_TASKS ! 3]) = None"
proof -
  have a: "focus (stats noonPlatform DEFAULT_TASKS) = Some (DEFAULT_TASKS ! 1)"
    by (rule stats_focus [of DEFAULT_TASKS noonPlatform, THEN conjunct1, rule_format, of 1])
       (simp_all add: DEFAULT_TASKS_def)
  have "focus (stats noonPlatform [DEFAULT_TASKS ! 3, DEFAULT_TASKS ! 0])
          = Some ([DEFAULT_TASKS ! 3, DEFAULT_TASKS ! 0] ! 1)"
    by (rule stats_focus [of "[DEFAULT_TASKS ! 3, DEFAULT_TASKS ! 0]" noonPlatform,
          THEN conjunct2, THEN conjunct1, rule_format, of 1])
       (auto simp: DEFAULT_TASKS_def)
  then have b: "focus (stats noonPlatform [DEFAULT_TASKS ! 3, DEFAULT_TASKS ! 0])
          = Some (DEFAULT_TASKS ! 0)"
    by simp
  have c: "focus (stats noonPlatform [DEFAULT_TASKS ! 3]) = None"
    by (rule stats_focus [of "[DEFAULT_TASKS ! 3]" noonPlatform,
          THEN conjunct2, THEN conjunct2, rule_format])
       (auto simp: DEFAULT_TASKS_def)
  show ?thesis using a b c by blast
qed

section \<open>Handlers\<close>

lemma all_dropWhile: "(\<forall>x \<in> set (dropWhile P s). P x) \<longleftrightarrow> (\<forall>x \<in> set s. P x)"
  by (induction s) auto

lemma trim_empty_iff: "trim s = [] \<longleftrightarrow> (\<forall>c \<in> set s. isWhiteSpace c)"
  by (simp add: trim_def all_dropWhile)

lemma map_other_ids:
  "i \<notin> id_task ` set ts \<Longrightarrow> map (\<lambda>task. if id_task task = i then f task else task) ts = ts"
  by (induction ts) auto

lemma map_other_ids_neg:
  "i \<notin> id_task ` set ts \<Longrightarrow> map (\<lambda>task. if id_task task \<noteq> i then task else f task) ts = ts"
  by (induction ts) auto

lemma filter_other_ids:
  "i \<notin> id_task ` set ts \<Longrightarrow> filter (\<lambda>task. id_task task \<noteq> i) ts = ts"
  by (induction ts) auto

text \<open>
  C8. Invalid input changes nothing and raises nothing. Creating with a title that is
  missing, empty or made of white space only returns the state as it was; deleting,
  updating, advancing or retreating with an identifier that no task of the list carries
  returns the state as it was, so the list keeps its contents and its order.
\<close>

theorem invalid_inputs_absorbed:
  "((p_title (draft st) = None \<or>
     (\<exists>s. p_title (draft st) = Some s \<and> (\<forall>c \<in> set s. isWhiteSpace c)))
      \<longrightarrow> handleAddTask env st = st) \<and>
   (i \<notin> id_task ` set (tasks st) \<longrightarrow>
      handleDelete i st = st \<and> updateTask i changes st = st \<and>
      toggleStatus i Forward st = st \<and> toggleStatus i Backward st = st)"
proof (intro conjI impI)
  assume "p_title (draft st) = None \<or>
     (\<exists>s. p_title (draft st) = Some s \<and> (\<forall>c \<in> set s. isWhiteSpace c))"
  then show "handleAddTask env st = st"
    by (auto simp: handleAddTask_def trim_empty_iff)
next
  assume a: "i \<notin> id_task ` set (tasks st)"
  show "handleDelete i st = st"
    by (simp add: handleDelete_def filter_other_ids [OF a])
  show "updateTask i changes st = st"
    by (simp add: updateTask_def map_other_ids [OF a])
  show "toggleStatus i Forward st = st"
    by (simp add: toggleStatus_def map_other_ids_neg [OF a])
  show "toggleStatus i Backward st = st"
    by (simp add: toggleStatus_def map_other_ids_neg [OF a])
qed

theorem invalid_inputs_absorbed_witness:
  "handleAddTask noonPlatform (initialState \<lparr> draft := emptyDraft \<lparr> p_title := Some ''   '' \<rparr> \<rparr>)
     = initialState \<lparr> draft := emptyDraft \<lparr> p_title := Some ''   '' \<rparr> \<rparr> \<and>
   handleDelete ''9'' initialState = initialState \<and>
   updateTask ''9'' (emptyDraft \<lparr> p_title := Some ''x'' \<rparr>) initialState = initialState \<and>
   toggleStatus ''9'' Forward initialState = initialState \<and>
   toggleStatus ''9'' Backward initialState = initialState"
proof -
  have t: "p_title (draft (initialState \<lparr> draft := emptyDraft \<lparr> p_title := Some ''   '' \<rparr> \<rparr>)) = None \<or>
     (\<exists>s. p_title (draft (initialState \<lparr> draft := emptyDraft \<lparr> p_title := Some ''   '' \<rparr> \<rparr>)) = Some s
       \<and> (\<forall>c \<in> set s. isWhiteSpace c))"
    by (simp add: isWhiteSpace_def)
  have n: "''9'' \<notin> id_task ` set (tasks initialState)"
    by (simp add: initialState_def DEFAULT_TASKS_def)
  show ?thesis
    using t n
      invalid_inputs_absorbed [of "initialState \<lparr> draft := emptyDraft \<lparr> p_title := Some ''   '' \<rparr> \<rparr>"
        noonPlatform "''9''" "emptyDraft \<lparr> p_title := Some ''x'' \<rparr>"]
      invalid_inputs_absorbed [of initialState noonPlatform "''9''" "emptyDraft \<lparr> p_title := Some ''x'' \<rparr>"]
    by blast
qed

text \<open>
  C9. Advancing or retreating by identifier keeps the length and the order of the list and
  leaves every task with another identifier as it is; the task with the identifier keeps
  all its fields but the status, which takes one step. Updating by identifier likewise
  keeps length and order and every other task; in the task with the identifier each field
  that the changes supply takes the supplied value and each other field stays.
\<close>

theorem toggle_update_frame:
  "length (tasks (toggleStatus i dir st)) = length (tasks st) \<and>
   (\<forall>k < length (tasks st).
      tasks (toggleStatus i dir st) ! k =
        (if id_task (tasks st ! k) = i
         then (tasks st ! k)\<lparr> status :=
                (case dir of Forward \<Rightarrow> nextStatus (status (tasks st ! k))
                           | Backward \<Rightarrow> previousStatus (status (tasks st ! k))) \<rparr>
         else tasks st ! k)) \<and>
   length (tasks (updateTask i changes st)) = length (tasks st) \<and>
   (\<forall>k < length (tasks st).
      (let old = tasks st ! k; new = tasks (updateTask i changes st) ! k
       in (id_task old \<noteq> i \<longrightarrow> new = old) \<and>
          (id_task old = i \<longrightarrow>
             id_task new = (case p_id changes of None \<Rightarrow> id_task old | Some v \<Rightarrow> v) \<and>
             title new = (case p_title changes of None \<Rightarrow> title old | Some v \<Rightarrow> v) \<and>
             description new =
               (case p_description changes of None \<Rightarrow> description old | Some v \<Rightarrow> v) \<and>
             status new = (case p_status changes of None \<Rightarrow> status old | Some v \<Rightarrow> v) \<and>
             priority new = (case p_priority changes of None \<Rightarrow> priority old | Some v \<Rightarrow> v) \<and>
             dueDate new = (case p_dueDate changes of None \<Rightarrow> dueDate old | Some v \<Rightarrow> v) \<and>
             tags new = (case p_tags changes of None \<Rightarrow> tags old | Some v \<Rightarrow> v) \<and>
             createdAt new =
               (case p_createdAt changes of None \<Rightarrow> createdAt old | Some v \<Rightarrow> v))))"
proof (intro conjI allI impI)
  show "length (tasks (toggleStatus i dir st)) = length (tasks st)"
    by (simp add: toggleStatus_def)
  show "length (tasks (updateTask i changes st)) = length (tasks st)"
    by (simp add: updateTask_def)
next
  fix k
  assume "k < length (tasks st)"
  then show "tasks (toggleStatus i dir st) ! k =
        (if id_task (tasks st ! k) = i
         then (tasks st ! k)\<lparr> status :=
                (case dir of Forward \<Rightarrow> nextStatus (status (tasks st ! k))
                           | Backward \<Rightarrow> previousStatus (status (tasks st ! k))) \<rparr>
         else tasks st ! k)"
    by (cases dir) (simp_all add: toggleStatus_def)
next
  fix k
  assume "k < length (tasks st)"
  then show "let old = tasks st ! k; new = tasks (updateTask i changes st) ! k
       in (id_task old \<noteq> i \<longrightarrow> new = old) \<and>
          (id_task old = i \<longrightarrow>
             id_task new = (case p_id changes of None \<Rightarrow> id_task old | Some v \<Rightarrow> v) \<and>
             title new = (case p_title changes of None \<Rightarrow> title old | Some v \<Rightarrow> v) \<and>
             description new =
               (case p_description changes of None \<Rightarrow> description old | Some v \<Rightarrow> v) \<and>
             status new = (case p_status changes of None \<Rightarrow> status old | Some v \<Rightarrow> v) \<and>
             priority new = (case p_priority changes of None \<Rightarrow> priority old | Some v \<Rightarrow> v) \<and>
             dueDate new = (case p_dueDate changes of None \<Rightarrow> dueDate old | Some v \<Rightarrow> v) \<and>
             tags new = (case p_tags changes of None \<Rightarrow> tags old | Some v \<Rightarrow> v) \<and>
             createdAt new =
               (case p_createdAt changes of None \<Rightarrow> createdAt old | Some v \<Rightarrow> v))"
    by (simp add: updateTask_def spread_def Let_def)
qed

theorem toggle_update_frame_witness:
  "length (tasks (toggleStatus ''2'' Forward initialState)) = 4 \<and>
   tasks (toggleStatus ''2'' Forward initialState) ! 1 = (DEFAULT_TASKS ! 1) \<lparr> status := Review \<rparr> \<and>
   tasks (toggleStatus ''2'' Forward initialState) ! 2 = DEFAULT_TASKS ! 2 \<and>
   length (tasks (updateTask ''2'' (noChanges \<lparr> p_tags := Some [''Growth''] \<rparr>) initialState)) = 4 \<and>
   tags (tasks (updateTask ''2'' (noChanges \<lparr> p_tags := Some [''Growth''] \<rparr>) initialState) ! 1)
     = [''Growth''] \<and>
   title (tasks (updateTask ''2'' (noChanges \<lparr> p_tags := Some [''Growth''] \<rparr>) initialState) ! 1)
     = ''Refine onboarding sequence'' \<and>
   tasks (updateTask ''2'' (noChanges \<lparr> p_tags := Some [''Growth''] \<rparr>) initialState) ! 2
     = DEFAULT_TASKS ! 2"
proof -
  have l: "length (tasks initialState) = 4" "tasks initialState = DEFAULT_TASKS"
    by (simp_all add: initialState_def DEFAULT_TASKS_def)
  have i: "id_task (DEFAULT_TASKS ! 1) = ''2''" "id_task (DEFAULT_TASKS ! 2) \<noteq> ''2''"
    "status (DEFAULT_TASKS ! 1) = InProgress" "title (DEFAULT_TASKS ! 1) = ''Refine onboarding sequence''"
    by (simp_all add: DEFAULT_TASKS_def)
  have n: "nextStatus InProgress = Review"
    by (simp add: nextStatus_def nextIndex_def order_def)
  note f = toggle_update_frame [of "''2''" Forward initialState "noChanges \<lparr> p_tags := Some [''Growth''] \<rparr>"]
  have f1: "length (tasks (toggleStatus ''2'' Forward initialState)) = 4"
    using f l by simp
  have f2: "tasks (toggleStatus ''2'' Forward initialState) ! 1 = (DEFAULT_TASKS ! 1) \<lparr> status := Review \<rparr>"
    using f [THEN conjunct2, THEN conjunct1, rule_format, of 1] l i n by simp
  have f3: "tasks (toggleStatus ''2'' Forward initialState) ! 2 = DEFAULT_TASKS ! 2"
    using f [THEN conjunct2, THEN conjunct1, rule_format, of 2] l i by simp
  have f4: "length (tasks (updateTask ''2'' (noChanges \<lparr> p_tags := Some [''Growth''] \<rparr>) initialState)) = 4"
    using f l by simp
  have f5: "tags (tasks (updateTask ''2'' (noChanges \<lparr> p_tags := Some [''Growth''] \<rparr>) initialState) ! 1)
     = [''Growth'']"
    and f6: "title (tasks (updateTask ''2'' (noChanges \<lparr> p_tags := Some [''Growth''] \<rparr>) initialState) ! 1)
     = ''Refine onboarding sequence''"
    using f [THEN conjunct2, THEN conjunct2, THEN conjunct2, rule_format, of 1] l i
    by (simp_all add: Let_def noChanges_def)
  have f7: "tasks (updateTask ''2'' (noChanges \<lparr> p_tags := Some [''Growth''] \<rparr>) initialState) ! 2
     = DEFAULT_TASKS ! 2"
    using f [THEN conjunct2, THEN conjunct2, THEN conjunct2, rule_format, of 2] l i
    by (simp add: Let_def)
  show ?thesis using f1 f2 f3 f4 f5 f6 f7 by blast
qed

text \<open>
  C10. When the draft's due date is the empty string, the task that is created has no
  due date: the field is absent, not empty. Such a task is not counted as overdue,
  whatever the clock and the rest of the list, and the "today" and "overdue" horizons
  never drop it: it is kept under a horizon exactly when it is kept under "all".
\<close>

theorem empty_due_date_absent:
  assumes "p_title (draft st) = Some ttl" and "trim ttl \<noteq> []"
    and "p_dueDate (draft st) = Some (Some [])"
  shows "\<exists>t. tasks (handleAddTask env st) = t # tasks st \<and> dueDate t = None \<and>
           (\<forall>env' :: 'e Platform. \<forall>before after. 
              overdue (stats env' (before @ t # after)) = overdue (stats env' (before @ after))) \<and>
           (\<forall>env' :: 'e Platform. \<forall>fs h.
              keepTask env' (fs \<lparr> horizon := h \<rparr>) t = keepTask env' (fs \<lparr> horizon := All \<rparr>) t)"
proof -
  obtain t where t: "tasks (handleAddTask env st) = t # tasks st" "dueDate t = None"
    using assms by (simp add: handleAddTask_def Let_def)
  have "overdue (stats env' (before @ t # after)) = overdue (stats env' (before @ after))"
    for env' :: "'e Platform" and before after
    using t(2) by (simp add: stats_def Let_def isOverdue_def)
  moreover have "keepTask env' (fs \<lparr> horizon := h \<rparr>) t = keepTask env' (fs \<lparr> horizon := All \<rparr>) t"
    for env' :: "'e Platform" and fs h
    using t(2) by (simp add: keepTask_def)
  ultimately show ?thesis using t by blast
qed


theorem empty_due_date_absent_witness:
  "tasks (handleAddTask noonPlatform (draftTitled ''Plan launch'')) =
     \<lparr> id_task = ''0b7e6a52-5c1d-4c3a-9a57-2f4d8e1c9f10'', title = ''Plan launch'',
       description = Some [], status = Backlog, priority = Medium, dueDate = None,
       tags = [''Plan'', ''launch''], createdAt = ''2024-06-15T12:00:00.000Z'' \<rparr>
     # DEFAULT_TASKS \<and>
   overdue (stats noonPlatform (tasks (handleAddTask noonPlatform (draftTitled ''Plan launch''))))
     = overdue (stats noonPlatform DEFAULT_TASKS) \<and>
   keepTask noonPlatform (noFilters \<lparr> horizon := Only Today \<rparr>)
     (hd (tasks (handleAddTask noonPlatform (draftTitled ''Plan launch'')))) \<and>
   keepTask noonPlatform (noFilters \<lparr> horizon := Only Overdue \<rparr>)
     (hd (tasks (handleAddTask noonPlatform (draftTitled ''Plan launch''))))"
proof -
  have e: "tasks (handleAddTask noonPlatform (draftTitled ''Plan launch'')) =
     \<lparr> id_task = ''0b7e6a52-5c1d-4c3a-9a57-2f4d8e1c9f10'', title = ''Plan launch'',
       description = Some [], status = Backlog, priority = Medium, dueDate = None,
       tags = [''Plan'', ''launch''], createdAt = ''2024-06-15T12:00:00.000Z'' \<rparr>
     # DEFAULT_TASKS"
    by code_simp
  have h: "p_title (draft (draftTitled ''Plan launch'')) = Some ''Plan launch''"
    "trim ''Plan launch'' \<noteq> []"
    "p_dueDate (draft (draftTitled ''Plan launch'')) = Some (Some [])"
    "tasks (draftTitled ''Plan launch'') = DEFAULT_TASKS"
    by (simp_all add: draftTitled_def emptyDraft_def initialState_def trim_def isWhiteSpace_def)
  obtain t where t: "tasks (handleAddTask noonPlatform (draftTitled ''Plan launch''))
        = t # tasks (draftTitled ''Plan launch'')"
    and o: "\<And>(env' :: (string \<times> nat) Platform) before after.
              overdue (stats env' (before @ t # after)) = overdue (stats env' (before @ after))"
    and k: "\<And>(env' :: (string \<times> nat) Platform) fs h.
              keepTask env' (fs \<lparr> horizon := h \<rparr>) t = keepTask env' (fs \<lparr> horizon := All \<rparr>) t"
    using empty_due_date_absent [OF h(1) h(2) h(3), of noonPlatform, where ?'e = "string \<times> nat"]
    by blast
  have a: "keepTask noonPlatform (noFilters \<lparr> horizon := All \<rparr>) t"
    by (simp add: noFilters_def keepTask_def split: option.split)
  have "overdue (stats noonPlatform ([] @ t # DEFAULT_TASKS)) = overdue (stats noonPlatform ([] @ DEFAULT_TASKS))"
    by (rule o)
  then show ?thesis
    using e t h(4) a k [where env' = noonPlatform and fs = noFilters] by simp
qed

section \<open>The momentum feed\<close>

lemma mset_insertBy: "mset (insertBy cmp x xs) = add_mset x (mset xs)"
  by (induction xs) simp_all

lemma mset_sortBy: "mset (sortBy cmp xs) = mset xs"
  by (induction xs) (simp_all add: mset_insertBy)

lemma set_insertBy: "set (insertBy cmp x xs) = insert x (set xs)"
  by (induction xs) auto

lemma set_sortBy: "set (sortBy cmp xs) = set xs"
  by (induction xs) (simp_all add: set_insertBy)

lemma sorted_insertBy:
  assumes total: "\<And>a b. cmp a b \<le> 0 \<or> cmp b a \<le> 0"
    and trans: "\<And>a b c. cmp a b \<le> 0 \<Longrightarrow> cmp b c \<le> 0 \<Longrightarrow> cmp a c \<le> 0"
    and "sorted_wrt (\<lambda>a b. cmp a b \<le> 0) xs"
  shows "sorted_wrt (\<lambda>a b. cmp a b \<le> (0::int)) (insertBy cmp x xs)"
  using assms(3)
proof (induction xs)
  case Nil
  then show ?case by simp
next
  case (Cons y ys)
  show ?case
  proof (cases "cmp x y \<le> 0")
    case True
    then have "\<forall>z \<in> set ys. cmp x z \<le> 0"
      using Cons.prems trans by auto
    then show ?thesis using True Cons.prems by simp
  next
    case False
    then have "cmp y x \<le> 0" using total [of x y] by simp
    then show ?thesis using False Cons by (simp add: set_insertBy)
  qed
qed

lemma sorted_sortBy:
  assumes "\<And>a b. cmp a b \<le> 0 \<or> cmp b a \<le> 0"
    and "\<And>a b c. cmp a b \<le> 0 \<Longrightarrow> cmp b c \<le> 0 \<Longrightarrow> cmp a c \<le> 0"
  shows "sorted_wrt (\<lambda>a b. cmp a b \<le> (0::int)) (sortBy cmp xs)"
proof (induction xs)
  case Nil
  show ?case by simp
next
  case (Cons x xs)
  then show ?case using sorted_insertBy [OF assms] by simp
qed

lemma length_sliceLast: "length (sliceLast n xs) \<le> n"
  by (simp add: sliceLast_def)

lemma set_sliceLast: "set (sliceLast n xs) \<subseteq> set xs"
  by (simp add: sliceLast_def set_drop_subset)

lemma flow_eq:
  "flow (stats env ts) = sliceLast 3 (sortBy (compareDue env) (filter (\<lambda>t. status t = Done) ts))"
  by (simp add: stats_def Let_def)

lemma sorted_done:
  assumes total: "\<forall>a b. localeCompare env a b \<le> 0 \<or> localeCompare env b a \<le> 0"
    and trans: "\<forall>a b c. localeCompare env a b \<le> 0 \<and> localeCompare env b c \<le> 0
                  \<longrightarrow> localeCompare env a c \<le> 0"
  shows "sorted_wrt (\<lambda>a b. localeCompare env (orEmpty (dueDate a)) (orEmpty (dueDate b)) \<le> 0)
           (sortBy (compareDue env) ds)"
proof -
  have "sorted_wrt (\<lambda>a b. compareDue env a b \<le> 0) (sortBy (compareDue env) ds)"
  proof (rule sorted_sortBy)
    show "compareDue env a b \<le> 0 \<or> compareDue env b a \<le> 0" for a b
      using total by (simp add: compareDue_def)
    show "compareDue env a b \<le> 0 \<Longrightarrow> compareDue env b c \<le> 0 \<Longrightarrow> compareDue env a c \<le> 0"
      for a b c
      using trans unfolding compareDue_def by blast
  qed
  then show ?thesis by (simp add: compareDue_def)
qed

lemma undated_first:
  assumes s: "sorted_wrt (\<lambda>a b. localeCompare env (orEmpty (dueDate a)) (orEmpty (dueDate b)) \<le> 0) xs"
    and e: "\<forall>s. s \<noteq> [] \<longrightarrow> 0 < localeCompare env s []"
    and "i < j" "j < length xs" "dueDate (xs ! j) = None"
  shows "orEmpty (dueDate (xs ! i)) = []"
proof (rule ccontr)
  assume n: "orEmpty (dueDate (xs ! i)) \<noteq> []"
  have "localeCompare env (orEmpty (dueDate (xs ! i))) (orEmpty (dueDate (xs ! j))) \<le> 0"
    using s assms(3,4) by (simp add: sorted_wrt_iff_nth_less)
  then have "localeCompare env (orEmpty (dueDate (xs ! i))) [] \<le> 0"
    using assms(5) by (simp add: orEmpty_def)
  then show False using e n by fastforce
qed


text \<open>
  C3. The momentum feed holds done tasks only and at most three of them. It is the last
  three entries of the done tasks put in ascending order of due date, a task without a
  due date being compared as the empty string: the ordered list is a rearrangement of the
  done tasks, it ascends whenever the host's collation is a total preorder, and then,
  every non-empty string collating after the empty one, no dated task stands before an
  undated one. For three done tasks due 2024-01-01, due 2024-02-01 and without a due
  date, in any order of the list, the feed is the undated one, then 2024-01-01, then
  2024-02-01, the collation ordering these three strings as written.
\<close>

theorem stats_flow:
  "(\<forall>t \<in> set (flow (stats env ts)). status t = Done) \<and>
   length (flow (stats env ts)) \<le> 3 \<and>
   (let ds = sortBy (compareDue env) (filter (\<lambda>t. status t = Done) ts)
    in flow (stats env ts) = drop (length ds - 3) ds \<and>
       mset ds = mset (filter (\<lambda>t. status t = Done) ts) \<and>
       ((\<forall>a b. localeCompare env a b \<le> 0 \<or> localeCompare env b a \<le> 0) \<and>
        (\<forall>a b c. localeCompare env a b \<le> 0 \<and> localeCompare env b c \<le> 0
                   \<longrightarrow> localeCompare env a c \<le> 0) \<longrightarrow>
          sorted_wrt (\<lambda>a b. localeCompare env (orEmpty (dueDate a)) (orEmpty (dueDate b)) \<le> 0) ds \<and>
          ((\<forall>s. s \<noteq> [] \<longrightarrow> 0 < localeCompare env s []) \<longrightarrow>
             (\<forall>i j. i < j \<and> j < length ds \<and> dueDate (ds ! j) = None
                     \<longrightarrow> orEmpty (dueDate (ds ! i)) = [])))) \<and>
   (status a = Done \<and> dueDate a = Some ''2024-01-01'' \<and>
    status b = Done \<and> dueDate b = Some ''2024-02-01'' \<and>
    status c = Done \<and> dueDate c = None \<and>
    localeCompare env [] ''2024-01-01'' \<le> 0 \<and> 0 < localeCompare env ''2024-01-01'' [] \<and>
    localeCompare env [] ''2024-02-01'' \<le> 0 \<and> 0 < localeCompare env ''2024-02-01'' [] \<and>
    localeCompare env ''2024-01-01'' ''2024-02-01'' \<le> 0 \<and>
    0 < localeCompare env ''2024-02-01'' ''2024-01-01'' \<longrightarrow>
      flow (stats env [a, b, c]) = [c, a, b] \<and> flow (stats env [a, c, b]) = [c, a, b] \<and>
      flow (stats env [b, a, c]) = [c, a, b] \<and> flow (stats env [b, c, a]) = [c, a, b] \<and>
      flow (stats env [c, a, b]) = [c, a, b] \<and> flow (stats env [c, b, a]) = [c, a, b])"
proof (intro conjI)
  show "\<forall>t \<in> set (flow (stats env ts)). status t = Done"
    using set_sliceLast [of 3 "sortBy (compareDue env) (filter (\<lambda>t. status t = Done) ts)"]
    by (auto simp: flow_eq set_sortBy)
  show "length (flow (stats env ts)) \<le> 3"
    by (simp add: flow_eq length_sliceLast)
  show "let ds = sortBy (compareDue env) (filter (\<lambda>t. status t = Done) ts)
    in flow (stats env ts) = drop (length ds - 3) ds \<and>
       mset ds = mset (filter (\<lambda>t. status t = Done) ts) \<and>
       ((\<forall>a b. localeCompare env a b \<le> 0 \<or> localeCompare env b a \<le> 0) \<and>
        (\<forall>a b c. localeCompare env a b \<le> 0 \<and> localeCompare env b c \<le> 0
                   \<longrightarrow> localeCompare env a c \<le> 0) \<longrightarrow>
          sorted_wrt (\<lambda>a b. localeCompare env (orEmpty (dueDate a)) (orEmpty (dueDate b)) \<le> 0) ds \<and>
          ((\<forall>s. s \<noteq> [] \<longrightarrow> 0 < localeCompare env s []) \<longrightarrow>
             (\<forall>i j. i < j \<and> j < length ds \<and> dueDate (ds ! j) = None
                     \<longrightarrow> orEmpty (dueDate (ds ! i)) = [])))"
    unfolding Let_def
  proof (intro conjI impI allI)
    show "flow (stats env ts) =
      drop (length (sortBy (compareDue env) (filter (\<lambda>t. status t = Done) ts)) - 3)
        (sortBy (compareDue env) (filter (\<lambda>t. status t = Done) ts))"
      by (simp add: flow_eq sliceLast_def)
    show "mset (sortBy (compareDue env) (filter (\<lambda>t. status t = Done) ts))
            = mset (filter (\<lambda>t. status t = Done) ts)"
      by (rule mset_sortBy)
  next
    assume p: "(\<forall>a b. localeCompare env a b \<le> 0 \<or> localeCompare env b a \<le> 0) \<and>
        (\<forall>a b c. localeCompare env a b \<le> 0 \<and> localeCompare env b c \<le> 0
                   \<longrightarrow> localeCompare env a c \<le> 0)"
    show s: "sorted_wrt (\<lambda>a b. localeCompare env (orEmpty (dueDate a)) (orEmpty (dueDate b)) \<le> 0)
               (sortBy (compareDue env) (filter (\<lambda>t. status t = Done) ts))"
      using p by (intro sorted_done) blast+
    fix i j
    assume "\<forall>s. s \<noteq> [] \<longrightarrow> 0 < localeCompare env s []"
      and "i < j \<and> j < length (sortBy (compareDue env) (filter (\<lambda>t. status t = Done) ts)) \<and>
           dueDate (sortBy (compareDue env) (filter (\<lambda>t. status t = Done) ts) ! j) = None"
    then show "orEmpty (dueDate (sortBy (compareDue env) (filter (\<lambda>t. status t = Done) ts) ! i)) = []"
      using undated_first [OF s] by blast
  qed
  show "status a = Done \<and> dueDate a = Some ''2024-01-01'' \<and>
    status b = Done \<and> dueDate b = Some ''2024-02-01'' \<and>
    status c = Done \<and> dueDate c = None \<and>
    localeCompare env [] ''2024-01-01'' \<le> 0 \<and> 0 < localeCompare env ''2024-01-01'' [] \<and>
    localeCompare env [] ''2024-02-01'' \<le> 0 \<and> 0 < localeCompare env ''2024-02-01'' [] \<and>
    localeCompare env ''2024-01-01'' ''2024-02-01'' \<le> 0 \<and>
    0 < localeCompare env ''2024-02-01'' ''2024-01-01'' \<longrightarrow>
      flow (stats env [a, b, c]) = [c, a, b] \<and> flow (stats env [a, c, b]) = [c, a, b] \<and>
      flow (stats env [b, a, c]) = [c, a, b] \<and> flow (stats env [b, c, a]) = [c, a, b] \<and>
      flow (stats env [c, a, b]) = [c, a, b] \<and> flow (stats env [c, b, a]) = [c, a, b]"
  proof
    assume h: "status a = Done \<and> dueDate a = Some ''2024-01-01'' \<and>
    status b = Done \<and> dueDate b = Some ''2024-02-01'' \<and>
    status c = Done \<and> dueDate c = None \<and>
    localeCompare env [] ''2024-01-01'' \<le> 0 \<and> 0 < localeCompare env ''2024-01-01'' [] \<and>
    localeCompare env [] ''2024-02-01'' \<le> 0 \<and> 0 < localeCompare env ''2024-02-01'' [] \<and>
    localeCompare env ''2024-01-01'' ''2024-02-01'' \<le> 0 \<and>
    0 < localeCompare env ''2024-02-01'' ''2024-01-01''"
    have k: "compareDue env c a \<le> 0" "\<not> compareDue env a c \<le> 0"
      "compareDue env c b \<le> 0" "\<not> compareDue env b c \<le> 0"
      "compareDue env a b \<le> 0" "\<not> compareDue env b a \<le> 0"
      using h by (simp_all add: compareDue_def orEmpty_def)
    have d: "status a = Done" "status b = Done" "status c = Done" using h by blast+
    show "flow (stats env [a, b, c]) = [c, a, b] \<and> flow (stats env [a, c, b]) = [c, a, b] \<and>
      flow (stats env [b, a, c]) = [c, a, b] \<and> flow (stats env [b, c, a]) = [c, a, b] \<and>
      flow (stats env [c, a, b]) = [c, a, b] \<and> flow (stats env [c, b, a]) = [c, a, b]"
      by (simp add: flow_eq sliceLast_def d k)
  qed
qed


theorem stats_flow_witness:
  "flow (stats noonPlatform
      [doneTask ''a'' (Some ''2024-01-01''), doneTask ''b'' (Some ''2024-02-01''), doneTask ''c'' None])
     = [doneTask ''c'' None, doneTask ''a'' (Some ''2024-01-01''), doneTask ''b'' (Some ''2024-02-01'')] \<and>
   sorted_wrt (\<lambda>a b. localeCompare noonPlatform (orEmpty (dueDate a)) (orEmpty (dueDate b)) \<le> 0)
     (sortBy (compareDue noonPlatform) (filter (\<lambda>t. status t = Done) DEFAULT_TASKS)) \<and>
   flow (stats noonPlatform DEFAULT_TASKS) = [DEFAULT_TASKS ! 3]"
proof -
  have total: "\<forall>a b. localeCompare noonPlatform a b \<le> 0 \<or> localeCompare noonPlatform b a \<le> 0"
    by (auto simp: noonPlatform_def codeUnitCompare_def)
  have trans: "\<forall>a b c. localeCompare noonPlatform a b \<le> 0 \<and> localeCompare noonPlatform b c \<le> 0
                  \<longrightarrow> localeCompare noonPlatform a c \<le> 0"
    by (auto simp: noonPlatform_def codeUnitCompare_def split: if_splits)
  have ex: "status (doneTask ''a'' (Some ''2024-01-01'')) = Done \<and>
      dueDate (doneTask ''a'' (Some ''2024-01-01'')) = Some ''2024-01-01'' \<and>
      status (doneTask ''b'' (Some ''2024-02-01'')) = Done \<and>
      dueDate (doneTask ''b'' (Some ''2024-02-01'')) = Some ''2024-02-01'' \<and>
      status (doneTask ''c'' None) = Done \<and> dueDate (doneTask ''c'' None) = None \<and>
      localeCompare noonPlatform [] ''2024-01-01'' \<le> 0 \<and>
      0 < localeCompare noonPlatform ''2024-01-01'' [] \<and>
      localeCompare noonPlatform [] ''2024-02-01'' \<le> 0 \<and>
      0 < localeCompare noonPlatform ''2024-02-01'' [] \<and>
      localeCompare noonPlatform ''2024-01-01'' ''2024-02-01'' \<le> 0 \<and>
      0 < localeCompare noonPlatform ''2024-02-01'' ''2024-01-01''"
    by (simp add: doneTask_def noonPlatform_def codeUnitCompare_def)
  have f: "flow (stats noonPlatform DEFAULT_TASKS) = [DEFAULT_TASKS ! 3]"
    by code_simp
  show ?thesis
    using total trans ex f
      stats_flow [of noonPlatform DEFAULT_TASKS "doneTask ''a'' (Some ''2024-01-01'')"
        "doneTask ''b'' (Some ''2024-02-01'')" "doneTask ''c'' None"]
    unfolding Let_def by blast
qed

section \<open>Creating a task\<close>

text \<open>
  C2. A title with leading blanks: the stored title is trimmed, but the tags are derived
  from the untrimmed title, whose first two pieces between spaces are empty and are
  dropped. For the title \<^verbatim>\<open>"  Plan launch  "\<close> and a blank tag string the new task, put
  at the front of the list with the generated identifier and the clock's time stamp, has
  the title \<^verbatim>\<open>"Plan launch"\<close> and no tags.
\<close>

theorem create_untrimmed_title_no_tags:
  "tasks (handleAddTask noonPlatform (draftTitled ''  Plan launch  '')) =
     \<lparr> id_task = randomUUID noonPlatform, title = ''Plan launch'',
       description = Some [], status = Backlog, priority = Medium, dueDate = None,
       tags = [], createdAt = toISOString noonPlatform (newDate noonPlatform) \<rparr>
     # DEFAULT_TASKS"
  by code_simp

section \<open>Delivery health\<close>

lemma round_even_error: "\<bar>real_of_int (round_even x) - x\<bar> \<le> 1 / 2"
proof -
  have "real_of_int \<lfloor>x\<rfloor> \<le> x" "x < real_of_int \<lfloor>x\<rfloor> + 1"
    by linarith+
  then show ?thesis
    by (auto simp: round_even_def Let_def)
qed

lemma fl_pos_error: "0 < x \<Longrightarrow> \<bar>fl_pos x - x\<bar> \<le> x / 2 ^ 53"
proof (induction x rule: fl_pos.induct)
  case (1 x)
  show ?case
  proof (cases "x < 2 ^ 52")
    case True
    then have e: "fl_pos x = fl_pos (2 * x) / 2"
      using "1.prems" by (subst fl_pos.simps) simp
    have "\<bar>fl_pos (2 * x) - 2 * x\<bar> \<le> 2 * x / 2 ^ 53"
      using "1.IH"(1) "1.prems" True by simp
    then show ?thesis unfolding e by (simp add: field_simps abs_le_iff)
  next
    case False
    show ?thesis
    proof (cases "2 ^ 53 \<le> x")
      case True
      then have e: "fl_pos x = 2 * fl_pos (x / 2)"
        using "1.prems" False by (subst fl_pos.simps) simp
      have "\<bar>fl_pos (x / 2) - x / 2\<bar> \<le> x / 2 / 2 ^ 53"
        using "1.IH"(2) "1.prems" False True by simp
      then show ?thesis unfolding e by (simp add: field_simps abs_le_iff)
    next
      case b: False
      then have e: "fl_pos x = real_of_int (round_even x)"
        using "1.prems" False by (subst fl_pos.simps) simp
      have "(1::real) / 2 \<le> x / 2 ^ 53"
        using False by (simp add: field_simps)
      then show ?thesis
        unfolding e using round_even_error [of x] by linarith
    qed
  qed
qed

lemma fl_zero: "fl 0 = 0"
  by (simp add: fl_def fl_pos.simps)

lemma fl_error: "0 \<le> x \<Longrightarrow> \<bar>fl x - x\<bar> \<le> x / 2 ^ 53"
proof (cases "x = 0")
  case True
  then show ?thesis by (simp add: fl_zero)
next
  case False
  assume "0 \<le> x"
  then have "0 < x" using False by simp
  then show ?thesis using fl_pos_error [of x] by (simp add: fl_def)
qed

lemma percent_error:
  assumes "0 \<le> x" "x \<le> 1"
  shows "\<bar>fmul (fl x) 100 - 100 * x\<bar> \<le> 1 / 2 ^ 44" and "0 \<le> fmul (fl x) 100"
proof -
  define u :: real where "u = 1 / 2 ^ 53"
  have u: "0 < u" "u \<le> 1" "300 * u \<le> 1 / 2 ^ 44"
    by (simp_all add: u_def)
  have xu: "x * u \<le> u" "x * u \<le> x"
    using assms u by (simp_all add: mult_left_le_one_le mult_left_le)
  have "\<bar>fl x - x\<bar> \<le> x * u"
    using fl_error [OF assms(1)] by (simp add: u_def)
  then have q: "\<bar>fl x - x\<bar> \<le> u" "0 \<le> fl x" "fl x \<le> 2"
    using xu u assms by linarith+
  have p: "\<bar>fl (fl x * 100) - fl x * 100\<bar> \<le> (fl x * 100) * u"
    using fl_error [of "fl x * 100"] q(2) by (simp add: u_def)
  have "(fl x * 100) * u \<le> 200 * u" "(fl x * 100) * u \<le> fl x * 100"
    using q(2,3) u by (simp_all add: mult_left_le)
  then have p': "\<bar>fl (fl x * 100) - fl x * 100\<bar> \<le> 200 * u"
    and p0: "0 \<le> fl (fl x * 100)"
    using p q(2) by linarith+
  have "\<bar>fl (fl x * 100) - 100 * x\<bar> \<le> 300 * u"
    using p' q(1) by linarith
  then show "\<bar>fmul (fl x) 100 - 100 * x\<bar> \<le> 1 / 2 ^ 44"
    unfolding fmul_def using u(3) by linarith
  show "0 \<le> fmul (fl x) 100"
    using p0 by (simp only: fmul_def)
qed

text \<open>An integer that misses a ratio by more than a half misses it by a whole step of the
  denominator.\<close>

lemma half_gap:
  fixes h :: int and d t :: nat
  assumes t: "0 < t" and far: "1 / 2 < \<bar>real_of_int h - 100 * real d / real t\<bar>"
  shows "1 / 2 + 1 / (2 * real t) \<le> \<bar>real_of_int h - 100 * real d / real t\<bar>"
proof -
  define a where "a = \<bar>real_of_int h - 100 * real d / real t\<bar>"
  define k :: int where "k = 2 * int t * h - 200 * int d"
  have "real_of_int k = 2 * real t * (real_of_int h - 100 * real d / real t)"
    using t by (simp add: k_def field_simps)
  then have k: "\<bar>real_of_int k\<bar> = 2 * real t * a"
    by (simp add: a_def abs_mult)
  have "2 * real t * (1 / 2) < 2 * real t * a"
    using far t unfolding a_def by (intro mult_strict_left_mono) simp_all
  then have "real t < \<bar>real_of_int k\<bar>"
    unfolding k by simp
  then have "int t < \<bar>k\<bar>" by linarith
  then have "int t + 1 \<le> \<bar>k\<bar>" by simp
  then have "real t + 1 \<le> \<bar>real_of_int k\<bar>" by linarith
  then have "real t + 1 \<le> a * (2 * real t)"
    unfolding k by (simp add: mult.commute)
  then have "(real t + 1) / (2 * real t) \<le> a"
    using t by (subst pos_divide_le_eq) simp_all
  moreover have "(real t + 1) / (2 * real t) = 1 / 2 + 1 / (2 * real t)"
    using t by (simp add: add_divide_distrib)
  ultimately show ?thesis unfolding a_def by simp
qed

lemma health_nearest:
  fixes d t :: nat
  assumes "0 < t" "d \<le> t"
  shows "0 \<le> Math_round (fmul (fdiv (real d) (real t)) 100)"
    and "Math_round (fmul (fdiv (real d) (real t)) 100) \<le> 100"
    and "t < 2 ^ 32 \<Longrightarrow>
         \<bar>real_of_int (Math_round (fmul (fdiv (real d) (real t)) 100)) - 100 * real d / real t\<bar> \<le> 1 / 2"
proof -
  define x where "x = real d / real t"
  define p where "p = fmul (fl x) 100"
  define h where "h = Math_round p"
  have x: "0 \<le> x" "x \<le> 1" using assms by (simp_all add: x_def)
  have e: "\<bar>p - 100 * x\<bar> \<le> 1 / 2 ^ 44" and p0: "0 \<le> p"
    using percent_error [OF x] by (simp_all add: p_def)
  have hh: "real_of_int h \<le> p + 1 / 2" "p + 1 / 2 < real_of_int h + 1"
    unfolding h_def Math_round_def by linarith+
  have eq: "Math_round (fmul (fdiv (real d) (real t)) 100) = h"
    by (simp add: h_def p_def x_def fdiv_def)
  have "0 \<le> real_of_int h + 1" using hh p0 by linarith
  then have "- 1 < real_of_int h" using hh p0 by linarith
  then show "0 \<le> Math_round (fmul (fdiv (real d) (real t)) 100)"
    unfolding eq by linarith
  have "(1::real) / 2 ^ 44 < 1 / 2" by simp
  then have "real_of_int h < 101" using hh e x by linarith
  then show "Math_round (fmul (fdiv (real d) (real t)) 100) \<le> 100"
    unfolding eq by linarith
  assume small: "t < 2 ^ 32"
  show "\<bar>real_of_int (Math_round (fmul (fdiv (real d) (real t)) 100)) - 100 * real d / real t\<bar> \<le> 1 / 2"
  proof (rule ccontr)
    assume "\<not> ?thesis"
    then have far: "1 / 2 < \<bar>real_of_int h - 100 * real d / real t\<bar>"
      unfolding eq by simp
    have g: "1 / 2 + 1 / (2 * real t) \<le> \<bar>real_of_int h - 100 * real d / real t\<bar>"
      by (rule half_gap [OF assms(1) far])
    have "real t < 2 ^ 32" using small by (metis of_nat_less_iff of_nat_numeral of_nat_power)
    then have "2 * real t < 2 ^ 33" by simp
    then have "1 / 2 ^ 33 < 1 / (2 * real t)"
      using assms(1) by (intro divide_strict_left_mono) simp_all
    moreover have "(1::real) / 2 ^ 44 < 1 / 2 ^ 33" by simp
    ultimately have s: "1 / 2 ^ 44 < 1 / (2 * real t)" by linarith
    have "\<bar>real_of_int h - 100 * x\<bar> \<le> 1 / 2 + 1 / 2 ^ 44"
      using hh e by linarith
    then show False using g s by (simp add: x_def)
  qed
qed


text \<open>
  C6. Health is 0 for the empty list; otherwise it is \<^verbatim>\<open>Math.round\<close> of the done share
  times 100, both operations in binary64, where the done share is the number of done
  tasks over the length of the list. It always lies between 0 and 100, and for a list
  the host can hold (fewer than \<open>2 ^ 32\<close> entries) it is an integer nearest to the exact
  percentage: the two differ by a half at most.
\<close>

theorem stats_health:
  "totals (stats env ts) = length ts \<and>
   done_count (stats env ts) = length (filter (\<lambda>t. status t = Done) ts) \<and>
   health (stats env ts) =
     (if ts = [] then 0
      else Math_round (fmul (fdiv (real (done_count (stats env ts))) (real (totals (stats env ts)))) 100)) \<and>
   0 \<le> health (stats env ts) \<and> health (stats env ts) \<le> 100 \<and>
   (ts \<noteq> [] \<and> length ts < 2 ^ 32 \<longrightarrow>
      \<bar>real_of_int (health (stats env ts))
         - 100 * real (length (filter (\<lambda>t. status t = Done) ts)) / real (length ts)\<bar> \<le> 1 / 2)"
proof (cases "ts = []")
  case True
  then show ?thesis by (simp add: stats_def Let_def)
next
  case False
  define d where "d = length (filter (\<lambda>t. status t = Done) ts)"
  define n where "n = length ts"
  have n: "0 < n" "d \<le> n" using False by (simp_all add: n_def d_def)
  have h: "health (stats env ts) = Math_round (fmul (fdiv (real d) (real n)) 100)"
    using n(1) by (simp add: stats_def Let_def n_def d_def)
  have c: "totals (stats env ts) = n" "done_count (stats env ts) = d"
    by (simp_all add: stats_def Let_def n_def d_def)
  show ?thesis
    unfolding h c using False health_nearest [OF n]
    by (simp add: n_def d_def)
qed

theorem stats_health_witness:
  "health (stats noonPlatform []) = 0 \<and>
   health (stats noonPlatform DEFAULT_TASKS) = 25 \<and>
   length DEFAULT_TASKS < 2 ^ 32 \<and>
   \<bar>real_of_int (health (stats noonPlatform DEFAULT_TASKS))
      - 100 * real (length (filter (\<lambda>t. status t = Done) DEFAULT_TASKS)) / real (length DEFAULT_TASKS)\<bar>
     \<le> 1 / 2"
proof -
  have l: "DEFAULT_TASKS \<noteq> [] \<and> length DEFAULT_TASKS < 2 ^ 32"
    by (simp add: DEFAULT_TASKS_def)
  have e: "health (stats noonPlatform DEFAULT_TASKS) = 25"
    by (simp add: stats_def Let_def DEFAULT_TASKS_def fmul_def fdiv_def fl_def fl_pos.simps
        round_even_def Math_round_def)
  have z: "health (stats noonPlatform []) = 0"
    using stats_health [of noonPlatform "[]"] by simp
  show ?thesis
    using l e z stats_health [of noonPlatform DEFAULT_TASKS] by blast
qed

text \<open>
  A tie of the exact percentage is not always rounded up: with 29 of 200 tasks done the
  binary product is just below 14.5 and health is 14, while with 1 of 8 done the product
  is 12.5 exactly and health is 13.
\<close>

lemma health_ties:
  "health (stats env (replicate 29 (doneTask ''d'' None) @ replicate 171 (DEFAULT_TASKS ! 0))) = 14 \<and>
   health (stats env (replicate 1 (doneTask ''d'' None) @ replicate 7 (DEFAULT_TASKS ! 0))) = 13"
proof -
  have s: "status (doneTask ''d'' None) = Done" "status (DEFAULT_TASKS ! 0) \<noteq> Done"
    by (simp_all add: doneTask_def DEFAULT_TASKS_def)
  have a: "Math_round (fmul (fdiv 29 200) 100) = 14"
    by (simp add: fmul_def fdiv_def fl_def fl_pos.simps round_even_def Math_round_def)
  have b: "Math_round (fmul (fdiv 1 8) 100) = 13"
    by (simp add: fmul_def fdiv_def fl_def fl_pos.simps round_even_def Math_round_def)
  show ?thesis
    using a b by (simp add: stats_def Let_def s)
qed

text \<open>The value of \<open>fl\<close> at one tenth is the binary64 number written \<^verbatim>\<open>0.1\<close>.\<close>

lemma fl_tenth: "fl (1 / 10) = 3602879701896397 / 2 ^ 55"
  by (simp add: fl_def fl_pos.simps round_even_def)

section \<open>Further properties of the store\<close>

text \<open>
  Deleting by identifier keeps the other tasks in their order and leaves no task with
  that identifier; when identifiers are unique and the identifier is present, the list
  gets shorter by exactly one.
\<close>

theorem delete_removes:
  "subseq (tasks (handleDelete i st)) (tasks st) \<and>
   i \<notin> id_task ` set (tasks (handleDelete i st)) \<and>
   filter (\<lambda>t. id_task t \<noteq> i) (tasks (handleDelete i st)) = filter (\<lambda>t. id_task t \<noteq> i) (tasks st) \<and>
   (distinct (map id_task (tasks st)) \<and> i \<in> id_task ` set (tasks st) \<longrightarrow>
      length (tasks (handleDelete i st)) + 1 = length (tasks st))"
proof (intro conjI impI)
  show "subseq (tasks (handleDelete i st)) (tasks st)"
    by (simp add: handleDelete_def)
  show "i \<notin> id_task ` set (tasks (handleDelete i st))"
    by (auto simp: handleDelete_def)
  show "filter (\<lambda>t. id_task t \<noteq> i) (tasks (handleDelete i st)) = filter (\<lambda>t. id_task t \<noteq> i) (tasks st)"
    by (simp add: handleDelete_def)
next
  assume "distinct (map id_task (tasks st)) \<and> i \<in> id_task ` set (tasks st)"
  then have "length (filter (\<lambda>t. id_task t \<noteq> i) (tasks st)) + 1 = length (tasks st)"
  proof (induction "tasks st" arbitrary: st)
    case Nil
    then show ?case by simp
  next
    case (Cons t ts)
    show ?case
    proof (cases "id_task t = i")
      case True
      then have "i \<notin> id_task ` set ts"
        using Cons.prems Cons.hyps(2) [symmetric] by auto
      then have "filter (\<lambda>t. id_task t \<noteq> i) ts = ts"
        by (induction ts) auto
      then show ?thesis using True Cons.hyps(2) [symmetric] by simp
    next
      case False
      have "length (filter (\<lambda>t. id_task t \<noteq> i) (tasks (st \<lparr> tasks := ts \<rparr>))) + 1
              = length (tasks (st \<lparr> tasks := ts \<rparr>))"
        using Cons.prems Cons.hyps(2) [symmetric] False
        by (intro Cons.hyps(1)) auto
      then show ?thesis using False Cons.hyps(2) [symmetric] by simp
    qed
  qed
  then show "length (tasks (handleDelete i st)) + 1 = length (tasks st)"
    by (simp add: handleDelete_def)
qed

theorem delete_removes_witness:
  "tasks (handleDelete ''2'' initialState) = [DEFAULT_TASKS ! 0, DEFAULT_TASKS ! 2, DEFAULT_TASKS ! 3] \<and>
   length (tasks (handleDelete ''2'' initialState)) + 1 = length (tasks initialState)"
proof -
  have h: "distinct (map id_task (tasks initialState)) \<and> ''2'' \<in> id_task ` set (tasks initialState)"
    by (simp add: initialState_def DEFAULT_TASKS_def)
  have e: "tasks (handleDelete ''2'' initialState)
             = [DEFAULT_TASKS ! 0, DEFAULT_TASKS ! 2, DEFAULT_TASKS ! 3]"
    by (simp add: handleDelete_def initialState_def DEFAULT_TASKS_def)
  show ?thesis
    using h e delete_removes [of "''2''" initialState] by blast
qed

text \<open>
  Identifiers stay unique: deleting, advancing, retreating and updating without a new
  identifier keep them so, and creating does when the generated identifier is not in
  the list yet.
\<close>

theorem identifiers_stay_unique:
  assumes "distinct (map id_task (tasks st))"
  shows "distinct (map id_task (tasks (handleDelete i st))) \<and>
         distinct (map id_task (tasks (toggleStatus i dir st))) \<and>
         (p_id changes = None \<longrightarrow> distinct (map id_task (tasks (updateTask i changes st)))) \<and>
         (randomUUID env \<notin> id_task ` set (tasks st) \<longrightarrow>
            distinct (map id_task (tasks (handleAddTask env st))))"
proof (intro conjI impI)
  show "distinct (map id_task (tasks (handleDelete i st)))"
    using assms by (simp add: handleDelete_def distinct_map_filter)
  have "map id_task (tasks (toggleStatus i dir st)) = map id_task (tasks st)"
    by (simp add: toggleStatus_def Let_def comp_def if_distrib [of id_task] cong: if_cong)
  then show "distinct (map id_task (tasks (toggleStatus i dir st)))"
    using assms by simp
next
  assume "p_id changes = None"
  then have "map id_task (tasks (updateTask i changes st)) = map id_task (tasks st)"
    by (simp add: updateTask_def spread_def comp_def if_distrib [of id_task] cong: if_cong)
  then show "distinct (map id_task (tasks (updateTask i changes st)))"
    using assms by simp
next
  assume "randomUUID env \<notin> id_task ` set (tasks st)"
  then show "distinct (map id_task (tasks (handleAddTask env st)))"
    using assms by (auto simp: handleAddTask_def Let_def split: option.splits)
qed

theorem identifiers_stay_unique_witness:
  "distinct (map id_task (tasks initialState)) \<and>
   distinct (map id_task (tasks (handleDelete ''2'' initialState))) \<and>
   distinct (map id_task (tasks (toggleStatus ''2'' Forward initialState))) \<and>
   distinct (map id_task (tasks (updateTask ''2'' noChanges initialState))) \<and>
   distinct (map id_task (tasks (handleAddTask noonPlatform (draftTitled ''Plan launch''))))"
proof -
  have d: "distinct (map id_task (tasks initialState))"
    "distinct (map id_task (tasks (draftTitled ''Plan launch'')))"
    by (simp_all add: initialState_def draftTitled_def DEFAULT_TASKS_def)
  have n: "p_id noChanges = None"
    "randomUUID noonPlatform \<notin> id_task ` set (tasks (draftTitled ''Plan launch''))"
    by (simp_all add: noChanges_def noonPlatform_def initialState_def draftTitled_def DEFAULT_TASKS_def)
  show ?thesis
    using d n identifiers_stay_unique [OF d(1), of "''2''" Forward noChanges noonPlatform]
      identifiers_stay_unique [OF d(2), of "''2''" Forward noChanges noonPlatform]
    by blast
qed

text \<open>
  A task that is counted as overdue is not done, so the overdue and the done tasks
  together are never more than the tasks of the list.
\<close>

theorem overdue_are_open: "overdue (stats env ts) + done_count (stats env ts) \<le> totals (stats env ts)"
proof -
  have "length (filter (isOverdue env) ts) + length (filter (\<lambda>t. status t = Done) ts) \<le> length ts"
  proof (induction ts)
    case Nil
    show ?case by simp
  next
    case (Cons t ts)
    have "\<not> (isOverdue env t \<and> status t = Done)"
      by (auto simp: isOverdue_def split: option.splits if_splits)
    then show ?case using Cons by auto
  qed
  then show ?thesis by (simp add: stats_def Let_def)
qed

theorem overdue_are_open_witness:
  "overdue (stats noonPlatform DEFAULT_TASKS) = 1 \<and> done_count (stats noonPlatform DEFAULT_TASKS) = 1 \<and>
   totals (stats noonPlatform DEFAULT_TASKS) = 4"
proof -
  have "overdue (stats noonPlatform DEFAULT_TASKS) = 1"
    "done_count (stats noonPlatform DEFAULT_TASKS) = 1"
    by code_simp+
  moreover have "totals (stats noonPlatform DEFAULT_TASKS) = 4"
    by (simp add: stats_def Let_def DEFAULT_TASKS_def)
  ultimately show ?thesis
    using overdue_are_open [of noonPlatform DEFAULT_TASKS] by simp
qed

end
